theory Spec2Isabelle
  imports Main
begin

section \<open>The list model of the clipboard history (clipboardmodel.cpp)\<close>

subsection \<open>escape\<close>

text \<open>
  The replacement table \<open>repl\<close> of \<open>escape\<close>, a \<open>QMap<QChar,QString>\<close> filled on first
  use with six entries. Tab is character 9 and newline is character 10.
\<close>

definition repl :: "char \<rightharpoonup> string" where
  "repl = [CHR '' '' \<mapsto> ''&nbsp;'',
           CHR 0x09 \<mapsto> ''&nbsp;&nbsp;'',
           CHR 0x0A \<mapsto> ''<br />'',
           CHR ''>'' \<mapsto> ''&gt;'',
           CHR ''<'' \<mapsto> ''&lt;'',
           CHR ''&'' \<mapsto> ''&amp;'']"

text \<open>
  \<open>repl[*it]\<close>: \<open>QMap::operator[]\<close> gives the default-constructed (empty) string for a
  key that has no entry.
\<close>

definition repl_lookup :: "char \<Rightarrow> string" where
  "repl_lookup c = (case repl c of None \<Rightarrow> [] | Some s \<Rightarrow> s)"

text \<open>The loop of \<open>escape\<close> over the characters of \<open>str\<close>, with the result \<open>res\<close> so far.\<close>

fun escape_loop :: "string \<Rightarrow> string \<Rightarrow> string" where
  "escape_loop [] res = res"
| "escape_loop (c # cs) res =
     (let str = repl_lookup c
      in if str = [] then escape_loop cs (res @ [c]) else escape_loop cs (res @ str))"

definition escape :: "string \<Rightarrow> string" where
  "escape str = escape_loop str []"

text \<open>The six characters that \<open>escape\<close> rewrites.\<close>

definition special :: "char set" where
  "special = {CHR '' '', CHR 0x09, CHR 0x0A, CHR ''<'', CHR ''>'', CHR ''&''}"

subsection \<open>The toolkit's value types\<close>

text \<open>
  The toolkit's types are used as its documentation describes them. An image is opaque
  here; a \<open>QVariant\<close> is invalid (null), a string or an image. Rows, counts, roles and
  keys are C++ \<open>int\<close>s; they are integers here, as the arithmetic on them (\<open>from + 1\<close>,
  \<open>rowCount() - i - 1\<close>) stays within one step of a row of the list. Positions inside a
  string are natural numbers, and the result \<open>-1\<close> of a search is \<open>None\<close>.
\<close>

datatype QImage = QImage "nat list"

datatype QVariant = Invalid | VString string | VImage QImage

fun toString :: "QVariant \<Rightarrow> string" where
  "toString (VString s) = s"
| "toString _ = []"

text \<open>
  A model index is valid when it belongs to a model and its row and column are not
  negative.
\<close>

record QModelIndex =
  row :: int
  column :: int
  has_model :: bool

definition isValid :: "QModelIndex \<Rightarrow> bool" where
  "isValid ix \<longleftrightarrow> 0 \<le> row ix \<and> 0 \<le> column ix \<and> has_model ix"

text \<open>\<open>index(r, 0)\<close> of the list model.\<close>

definition index :: "int \<Rightarrow> QModelIndex" where
  "index r = \<lparr>row = r, column = 0, has_model = True\<rparr>"

definition DisplayRole :: int where "DisplayRole = 0"
definition EditRole :: int where "EditRole = 2"

definition Key_Home :: int where "Key_Home = 0x01000010"
definition Key_End :: int where "Key_End = 0x01000011"
definition Key_Up :: int where "Key_Up = 0x01000013"
definition Key_Down :: int where "Key_Down = 0x01000015"

text \<open>
  A regular expression is its pattern text and its matcher, which is a parameter of the
  model: \<open>matchAt re str b\<close> is the length of the match of \<open>re\<close> in \<open>str\<close> that starts
  exactly at position \<open>b\<close>, if there is one. \<open>isEmpty\<close> tells whether the pattern text
  is empty.
\<close>

record QRegExp =
  pattern :: string
  matchAt :: "string \<Rightarrow> nat \<Rightarrow> nat option"

definition isEmpty :: "QRegExp \<Rightarrow> bool" where
  "isEmpty re \<longleftrightarrow> pattern re = []"

text \<open>
  \<open>re->indexIn(str, offset)\<close> together with \<open>re->matchedLength()\<close>: the leftmost
  position at or after \<open>offset\<close> where the expression matches, with the length of that
  match; \<open>None\<close> stands for the result \<open>-1\<close>. Positions run up to \<open>str.length()\<close>, where
  only an empty match is possible.
\<close>

definition indexIn :: "QRegExp \<Rightarrow> string \<Rightarrow> nat \<Rightarrow> (nat \<times> nat) option" where
  "indexIn re str offset =
     (case find (\<lambda>b. matchAt re str b \<noteq> None) [offset ..< Suc (length str)] of
        None \<Rightarrow> None
      | Some b \<Rightarrow> map_option (Pair b) (matchAt re str b))"

text \<open>\<open>str.mid(position, n)\<close> and \<open>str.mid(position)\<close> for positions that are not negative.\<close>

definition mid :: "string \<Rightarrow> nat \<Rightarrow> nat \<Rightarrow> string" where
  "mid str position n = take n (drop position str)"

definition mid_from :: "string \<Rightarrow> nat \<Rightarrow> string" where
  "mid_from str position = drop position str"

text \<open>
  The operations of \<open>QList\<close>. \<open>insert\<close> prepends for an index at or below 0 and appends
  for an index at or above the size; \<open>removeAt\<close> does nothing for an index out of range;
  \<open>move\<close> takes the element out and puts it back at the new index (both indexes are in
  range wherever the model calls it).
\<close>

definition qlist_insert :: "'a list \<Rightarrow> int \<Rightarrow> 'a \<Rightarrow> 'a list" where
  "qlist_insert xs i v =
     (if i \<le> 0 then v # xs
      else if int (length xs) \<le> i then xs @ [v]
      else take (nat i) xs @ v # drop (nat i) xs)"

definition qlist_removeAt :: "'a list \<Rightarrow> int \<Rightarrow> 'a list" where
  "qlist_removeAt xs i =
     (if 0 \<le> i \<and> i < int (length xs) then take (nat i) xs @ drop (Suc (nat i)) xs else xs)"

definition qlist_move :: "'a list \<Rightarrow> nat \<Rightarrow> nat \<Rightarrow> 'a list" where
  "qlist_move xs from to =
     (let x = xs ! from; ys = take from xs @ drop (Suc from) xs
      in take to ys @ x # drop to ys)"

subsection \<open>ClipboardItem\<close>

text \<open>
  Modelled from the spec: the class \<open>ClipboardItem\<close> (clipboarditem.h) is not among the
  sources. The model stores "text/image items" that take part in "search-and-highlight":
  an item is its text (the field \<open>qstring\<close>, as the class is used as a \<open>QString\<close>), an
  optional image, the filter flag and the highlight string, with the plain setters and
  getters that clipboardmodel.cpp calls. An item made from a string has no image, is not
  filtered and has no highlight.
\<close>

record ClipboardItem =
  qstring :: string
  m_image :: "QImage option"
  m_filtered :: bool
  m_highlight :: string

definition ClipboardItem_new :: "string \<Rightarrow> ClipboardItem" where
  "ClipboardItem_new str = \<lparr>qstring = str, m_image = None, m_filtered = False, m_highlight = []\<rparr>"

definition setImage :: "ClipboardItem \<Rightarrow> QImage \<Rightarrow> ClipboardItem" where
  "setImage item img = item\<lparr>m_image := Some img\<rparr>"

definition setFiltered :: "ClipboardItem \<Rightarrow> bool \<Rightarrow> ClipboardItem" where
  "setFiltered item f = item\<lparr>m_filtered := f\<rparr>"

definition setHighlight :: "ClipboardItem \<Rightarrow> string \<Rightarrow> ClipboardItem" where
  "setHighlight item h = item\<lparr>m_highlight := h\<rparr>"

definition highlighted :: "ClipboardItem \<Rightarrow> string" where
  "highlighted item = m_highlight item"

subsection \<open>ClipboardModel\<close>

text \<open>
  The state of the model: the list of items and the current search expression. Reading or
  writing \<open>m_clipboardList[i]\<close> with \<open>i\<close> out of range violates the list's precondition;
  the model returns the error \<open>IndexOutOfRange\<close> there.
\<close>

datatype error = IndexOutOfRange

record ClipboardModel =
  m_clipboardList :: "ClipboardItem list"
  m_re :: QRegExp

text \<open>A default-constructed \<open>QRegExp\<close>: the empty pattern, which matches the empty string.\<close>

definition QRegExp_default :: QRegExp where
  "QRegExp_default = \<lparr>pattern = [], matchAt = (\<lambda>str b. Some 0)\<rparr>"

text \<open>The constructor appends the strings one by one.\<close>

fun append_items :: "ClipboardItem list \<Rightarrow> string list \<Rightarrow> ClipboardItem list" where
  "append_items l [] = l"
| "append_items l (str # strs) = append_items (l @ [ClipboardItem_new str]) strs"

definition ClipboardModel_new :: "string list \<Rightarrow> ClipboardModel" where
  "ClipboardModel_new items =
     \<lparr>m_clipboardList = append_items [] items, m_re = QRegExp_default\<rparr>"

definition rowCount :: "ClipboardModel \<Rightarrow> int" where
  "rowCount m = int (length (m_clipboardList m))"

definition data :: "ClipboardModel \<Rightarrow> QModelIndex \<Rightarrow> int \<Rightarrow> QVariant" where
  "data m ix role =
     (if \<not> isValid ix \<or> int (length (m_clipboardList m)) \<le> row ix then Invalid
      else
        let item = m_clipboardList m ! nat (row ix) in
        case m_image item of
          Some img \<Rightarrow>
            if role = DisplayRole \<or> role = EditRole then VImage img
            else if role = DisplayRole then VString (highlighted item)
            else if role = EditRole then VString (qstring item)
            else Invalid
        | None \<Rightarrow>
            if role = DisplayRole then VString (highlighted item)
            else if role = EditRole then VString (qstring item)
            else Invalid)"

text \<open>
  \<open>insertRows\<close> and \<open>removeRows\<close>: the loop body runs \<open>rows\<close> times, and not at all when
  \<open>rows\<close> is zero or negative. The notifications to the views around the loop do not
  touch the list.
\<close>

definition insertRows :: "ClipboardModel \<Rightarrow> int \<Rightarrow> int \<Rightarrow> bool \<times> ClipboardModel" where
  "insertRows m position rows =
     (True, m\<lparr>m_clipboardList :=
        ((\<lambda>l. qlist_insert l position (ClipboardItem_new [])) ^^ nat rows) (m_clipboardList m)\<rparr>)"

definition removeRows :: "ClipboardModel \<Rightarrow> int \<Rightarrow> int \<Rightarrow> bool \<times> ClipboardModel" where
  "removeRows m position rows =
     (True, m\<lparr>m_clipboardList :=
        ((\<lambda>l. qlist_removeAt l position) ^^ nat rows) (m_clipboardList m)\<rparr>)"

definition getRowNumber :: "ClipboardModel \<Rightarrow> int \<Rightarrow> bool \<Rightarrow> int" where
  "getRowNumber m r cycle =
     (let n = rowCount m in
      if n = 0 then - 1
      else if n \<le> r then (if cycle then 0 else n - 1)
      else if r < 0 then (if cycle then n - 1 else 0)
      else r)"

text \<open>
  \<open>beginMoveRows\<close> of the toolkit, for a move inside one parent: it refuses, returning
  false, a destination that lies within the moved range or directly after it.
\<close>

definition beginMoveRows :: "int \<Rightarrow> int \<Rightarrow> int \<Rightarrow> bool" where
  "beginMoveRows sourceFirst sourceLast destinationChild \<longleftrightarrow>
     \<not> (sourceFirst \<le> destinationChild \<and> destinationChild \<le> sourceLast + 1)"

definition move :: "ClipboardModel \<Rightarrow> int \<Rightarrow> int \<Rightarrow> bool \<times> ClipboardModel" where
  "move m pos newpos =
     (let from = getRowNumber m pos True;
          to = getRowNumber m newpos True
      in if from = - 1 \<or> to = - 1 then (False, m)
         else if \<not> beginMoveRows from from (if from < to then to + 1 else to) then (False, m)
         else (True, m\<lparr>m_clipboardList := qlist_move (m_clipboardList m) (nat from) (nat to)\<rparr>))"

text \<open>
  The loop of \<open>moveItems\<close> over \<open>i = 0, ..., list.length() - 1\<close>, with the model and the
  flag \<open>res\<close> so far. A key other than Down, Up and End takes the default branch.
\<close>

fun moveItems_loop ::
  "ClipboardModel \<Rightarrow> QModelIndex list \<Rightarrow> int \<Rightarrow> nat list \<Rightarrow> bool \<Rightarrow> bool \<times> ClipboardModel" where
  "moveItems_loop m list key [] res = (res, m)"
| "moveItems_loop m list key (i # is) res =
     (let from = (if key = Key_Down \<or> key = Key_End
                  then row (list ! (length list - 1 - i))
                  else row (list ! i));
          to = (if key = Key_Down then from + 1
                else if key = Key_Up then from - 1
                else if key = Key_End then rowCount m - int i - 1
                else 0 + int i);
          moved = move m from to
      in if \<not> fst moved then (False, snd moved)
         else moveItems_loop (snd moved) list key is (if \<not> res then to = 0 else res))"

text \<open>\<open>qSort\<close> orders the indexes of a list model by their row.\<close>

definition moveItems :: "ClipboardModel \<Rightarrow> QModelIndex list \<Rightarrow> int \<Rightarrow> bool \<times> ClipboardModel" where
  "moveItems m list key =
     (let sorted = sort_key row list
      in moveItems_loop m sorted key [0 ..< length sorted] False)"

definition isFiltered :: "ClipboardModel \<Rightarrow> int \<Rightarrow> error + bool" where
  "isFiltered m i =
     (if 0 \<le> i \<and> i < rowCount m then Inr (m_filtered (m_clipboardList m ! nat i))
      else Inl IndexOutOfRange)"

definition span_open :: string where
  "span_open = ''<span class=\"em\">''"

definition span_close :: string where
  "span_close = ''</span>''"

text \<open>
  The \<open>while\<close> loop of \<open>setSearch(i, re)\<close>: \<open>a\<close> is the position where the next search
  starts and \<open>highlight\<close> the string built so far; the loop is entered with the result of
  \<open>indexIn(str, a)\<close> and leaves at no match or at an empty one. It returns the final \<open>a\<close>
  and \<open>highlight\<close>.
\<close>

function highlight_loop :: "QRegExp \<Rightarrow> string \<Rightarrow> nat \<Rightarrow> string \<Rightarrow> nat \<times> string" where
  "highlight_loop re str a highlight =
     (case indexIn re str a of
        None \<Rightarrow> (a, highlight)
      | Some (b, len) \<Rightarrow>
          if len = 0 then (a, highlight)
          else highlight_loop re str (b + len)
                 (highlight @ escape (mid str a (b - a)) @ span_open
                    @ escape (mid str b len) @ span_close))"
  by pat_completeness auto
termination
  by (relation "measure (\<lambda>(re, str, a, highlight). Suc (length str) - a)")
     (auto simp: indexIn_def find_Some_iff simp del: upt_Suc split: option.splits)

text \<open>The body of \<open>setSearch(i, re)\<close> on the item \<open>m_clipboardList[i]\<close>; \<open>None\<close> is a null \<open>re\<close>.\<close>

definition setSearch_item :: "ClipboardItem \<Rightarrow> QRegExp option \<Rightarrow> ClipboardItem" where
  "setSearch_item item re_ptr =
     (let str = qstring item in
      case re_ptr of
        None \<Rightarrow> setFiltered item False
      | Some re \<Rightarrow>
          if isEmpty re then setFiltered item False
          else
            let (a, highlight) = highlight_loop re str 0 [] in
            if highlight = [] then setFiltered item True
            else
              let highlight' =
                    (if a \<noteq> length str then highlight @ escape (mid_from str a) else highlight)
              in setHighlight (setFiltered item False) highlight')"

definition setSearch :: "ClipboardModel \<Rightarrow> int \<Rightarrow> QRegExp option \<Rightarrow> error + ClipboardModel" where
  "setSearch m i re_ptr =
     (if 0 \<le> i \<and> i < rowCount m
      then Inr (m\<lparr>m_clipboardList :=
                  (m_clipboardList m)[nat i := setSearch_item (m_clipboardList m ! nat i) re_ptr]\<rparr>)
      else Inl IndexOutOfRange)"

text \<open>
  \<open>setData\<close> calls \<open>setSearch(row)\<close> with the default second argument, which the header
  (not among the sources) declares; it is the parameter \<open>dflt\<close> here.
\<close>

definition setData ::
  "QRegExp option \<Rightarrow> ClipboardModel \<Rightarrow> QModelIndex \<Rightarrow> QVariant \<Rightarrow> int
     \<Rightarrow> error + (bool \<times> ClipboardModel)" where
  "setData dflt m ix v role =
     (if isValid ix \<and> role = EditRole then
        let r = row ix; l = m_clipboardList m in
        if int (length l) \<le> r then Inl IndexOutOfRange
        else
          let l' = (case v of
                      VImage img \<Rightarrow> l[nat r := setImage (l ! nat r) img]
                    | _ \<Rightarrow> l[nat r := ClipboardItem_new (toString v)])
          in case setSearch (m\<lparr>m_clipboardList := l'\<rparr>) r dflt of
               Inl e \<Rightarrow> Inl e
             | Inr m' \<Rightarrow> Inr (True, m')
      else Inr (False, m))"

subsection \<open>Row wrapping and relocation as the specification describes them\<close>

text \<open>
  The cyclic wrapping of a row argument for a model of \<open>n\<close> rows: an argument at or
  above \<open>n\<close> becomes 0, a negative one \<open>n - 1\<close>, one in range stays. \<open>others xs k\<close> are the
  elements of \<open>xs\<close> other than the one at index \<open>k\<close>, in their order.
\<close>

definition wrap_row :: "int \<Rightarrow> int \<Rightarrow> int" where
  "wrap_row n r = (if n \<le> r then 0 else if r < 0 then n - 1 else r)"

definition others :: "'a list \<Rightarrow> nat \<Rightarrow> 'a list" where
  "others xs k = take k xs @ drop (Suc k) xs"

subsection \<open>The highlight string as the specification describes it\<close>

text \<open>
  The successive non-overlapping matches of an expression in a string, left to right, as
  pairs of position and length: the search for the next match starts where the last one
  ended, and one character further after an empty match.
\<close>

function successive_matches :: "QRegExp \<Rightarrow> string \<Rightarrow> nat \<Rightarrow> (nat \<times> nat) list" where
  "successive_matches re str a =
     (case indexIn re str a of
        None \<Rightarrow> []
      | Some (b, len) \<Rightarrow> (b, len) # successive_matches re str (b + max len 1))"
  by pat_completeness auto
termination
  by (relation "measure (\<lambda>(re, str, a). Suc (length str) - a)")
     (auto simp: indexIn_def find_Some_iff simp del: upt_Suc split: option.splits)

text \<open>
  For each match in turn: the escaped text between the end of the previous match
  (\<open>prev\<close>) and the start of this one, the opening tag, the escaped matched text and the
  closing tag; after the last match the escaped remainder of the string.
\<close>

fun spec_pieces :: "string \<Rightarrow> nat \<Rightarrow> (nat \<times> nat) list \<Rightarrow> string" where
  "spec_pieces str prev [] = escape (drop prev str)"
| "spec_pieces str prev ((b, len) # ms) =
     escape (take (b - prev) (drop prev str)) @ span_open
       @ escape (take len (drop b str)) @ span_close @ spec_pieces str (b + len) ms"

definition spec_highlight :: "string \<Rightarrow> (nat \<times> nat) list \<Rightarrow> string" where
  "spec_highlight str ms = spec_pieces str 0 ms"

definition nonempty_match :: "nat \<times> nat \<Rightarrow> bool" where
  "nonempty_match bl \<longleftrightarrow> snd bl \<noteq> 0"

text \<open>
  The first match of the expression in the string, searching from position 0, exists
  and is not empty.
\<close>

definition first_match_nonempty :: "QRegExp \<Rightarrow> string \<Rightarrow> bool" where
  "first_match_nonempty re str =
     (case indexIn re str 0 of None \<Rightarrow> False | Some (b, len) \<Rightarrow> len \<noteq> 0)"

subsection \<open>Two regular expressions for the examples\<close>

text \<open>A literal text \<open>p\<close>, and \<open>c*\<close>: the longest run of the character \<open>c\<close>, possibly empty.\<close>

definition re_literal :: "string \<Rightarrow> QRegExp" where
  "re_literal p =
     \<lparr>pattern = p,
      matchAt = (\<lambda>str b. if take (length p) (drop b str) = p then Some (length p) else None)\<rparr>"

definition re_star :: "char \<Rightarrow> QRegExp" where
  "re_star c =
     \<lparr>pattern = [c, CHR ''*''],
      matchAt = (\<lambda>str b. Some (length (takeWhile (\<lambda>x. x = c) (drop b str))))\<rparr>"

text \<open>A model that holds one text item with the given filter flag and highlight.\<close>

definition one_item :: "string \<Rightarrow> bool \<Rightarrow> string \<Rightarrow> ClipboardModel" where
  "one_item str f h =
     \<lparr>m_clipboardList = [\<lparr>qstring = str, m_image = None, m_filtered = f, m_highlight = h\<rparr>],
      m_re = QRegExp_default\<rparr>"

section \<open>Properties\<close>

subsection \<open>escape is a homomorphism\<close>

lemma repl_lookup_special:
  "repl_lookup (CHR '' '') = ''&nbsp;''"
  "repl_lookup (CHR 0x09) = ''&nbsp;&nbsp;''"
  "repl_lookup (CHR 0x0A) = ''<br />''"
  "repl_lookup (CHR ''<'') = ''&lt;''"
  "repl_lookup (CHR ''>'') = ''&gt;''"
  "repl_lookup (CHR ''&'') = ''&amp;''"
  by (simp_all add: repl_lookup_def repl_def)

lemma repl_lookup_other: "c \<notin> special \<Longrightarrow> repl_lookup c = []"
  by (simp add: repl_lookup_def repl_def special_def)

lemma escape_loop_acc: "escape_loop s res = res @ escape_loop s []"
proof (induction s arbitrary: res)
  case Nil
  show ?case by simp
next
  case (Cons c cs)
  have "escape_loop cs (res @ x) = res @ escape_loop cs x" for x
    using Cons.IH [of "res @ x"] Cons.IH [of x] by simp
  then show ?case by (simp add: Let_def)
qed

lemma escape_Nil: "escape [] = []"
  by (simp add: escape_def)

lemma escape_Cons:
  "escape (c # cs) = (if repl_lookup c = [] then [c] else repl_lookup c) @ escape cs"
  using escape_loop_acc [of cs "[c]"] escape_loop_acc [of cs "repl_lookup c"]
  by (simp add: escape_def Let_def)

lemma escape_append: "escape (s @ t) = escape s @ escape t"
  by (induction s) (simp_all add: escape_Nil escape_Cons)

lemma escape_plain: "set s \<inter> special = {} \<Longrightarrow> escape s = s"
  by (induction s) (simp_all add: escape_Nil escape_Cons repl_lookup_other)

text \<open>
  C8: \<open>escape\<close> rewrites each character on its own: a space becomes \<open>&nbsp;\<close>, a tab two
  of them, a newline \<open><br />\<close>, and \<open><\<close>, \<open>>\<close>, \<open>&\<close> their entities; every other character
  stays. So \<open>escape\<close> is the concatenation of the images of the characters, it distributes
  over \<open>@\<close>, and it is the identity on a string without any of the six characters.
\<close>

theorem escape_homomorphism:
  "escape [CHR '' ''] = ''&nbsp;'' \<and>
   escape [CHR 0x09] = ''&nbsp;&nbsp;'' \<and>
   escape [CHR 0x0A] = ''<br />'' \<and>
   escape [CHR ''<''] = ''&lt;'' \<and>
   escape [CHR ''>''] = ''&gt;'' \<and>
   escape [CHR ''&''] = ''&amp;'' \<and>
   (c \<notin> special \<longrightarrow> escape [c] = [c]) \<and>
   escape s = concat (map (\<lambda>x. escape [x]) s) \<and>
   escape (s @ t) = escape s @ escape t \<and>
   (set u \<inter> special = {} \<longrightarrow> escape u = u)"
proof -
  have single: "escape [x] = (if repl_lookup x = [] then [x] else repl_lookup x)" for x
    by (simp add: escape_Cons escape_Nil)
  have pointwise: "escape s = concat (map (\<lambda>x. escape [x]) s)"
    by (induction s) (simp_all add: escape_Nil escape_Cons)
  show ?thesis
    using pointwise
    by (simp add: single repl_lookup_special repl_lookup_other escape_append escape_plain)
qed

theorem escape_homomorphism_witness:
  "CHR ''a'' \<notin> special \<and> escape ''a'' = ''a'' \<and>
   escape (''a b'' @ ''<c'') = ''a&nbsp;b&lt;c'' \<and>
   set ''abc'' \<inter> special = {} \<and> escape ''abc'' = ''abc''"
proof -
  have a: "CHR ''a'' \<notin> special"
    by (simp add: special_def)
  have abc: "set ''abc'' \<inter> special = {}"
    by (simp add: special_def)
  have parts: "escape ''a b'' = ''a&nbsp;b''" "escape ''<c'' = ''&lt;c''"
    by (simp_all add: escape_Cons escape_Nil repl_lookup_def repl_def)
  show ?thesis
    using a abc parts escape_homomorphism [of "CHR ''a''" "''a b''" "''<c''" "''abc''"]
    by simp
qed

subsection \<open>The constructor, rowCount and data\<close>

lemma append_items_eq: "append_items l strs = l @ map ClipboardItem_new strs"
  by (induction strs arbitrary: l) simp_all

lemma list_of_new: "m_clipboardList (ClipboardModel_new strs) = map ClipboardItem_new strs"
  by (simp add: ClipboardModel_new_def append_items_eq)

text \<open>
  C7: a model constructed from a list of strings stores them in the given order:
  \<open>rowCount\<close> is the number of strings, and \<open>data\<close> at row \<open>i\<close> below that count with the
  edit role returns the \<open>i\<close>-th string.
\<close>

theorem constructor_stores_strings:
  "map qstring (m_clipboardList (ClipboardModel_new strs)) = strs \<and>
   rowCount (ClipboardModel_new strs) = int (length strs) \<and>
   (i < length strs \<longrightarrow>
      data (ClipboardModel_new strs) (index (int i)) EditRole = VString (strs ! i))"
proof -
  have "map qstring (map ClipboardItem_new strs) = strs"
    by (induction strs) (simp_all add: ClipboardItem_new_def)
  moreover have "data (ClipboardModel_new strs) (index (int i)) EditRole = VString (strs ! i)"
    if "i < length strs"
    using that
    by (simp add: data_def list_of_new index_def isValid_def ClipboardItem_new_def
        EditRole_def DisplayRole_def)
  ultimately show ?thesis
    by (simp add: rowCount_def list_of_new)
qed

theorem constructor_stores_strings_witness:
  "(1::nat) < length [''a'', ''b''] \<and>
   data (ClipboardModel_new [''a'', ''b'']) (index 1) EditRole = VString ''b''"
  using constructor_stores_strings [of "[''a'', ''b'']" 1] by simp

lemma data_invalid_ix: "\<not> isValid ix \<or> rowCount m \<le> row ix \<Longrightarrow> data m ix role = Invalid"
  by (auto simp: data_def rowCount_def)

lemma data_other_role:
  "role \<noteq> DisplayRole \<Longrightarrow> role \<noteq> EditRole \<Longrightarrow> data m ix role = Invalid"
  by (simp add: data_def Let_def split: option.splits)

text \<open>
  C10: \<open>data\<close> returns a null \<open>QVariant\<close> for an invalid index and for a row at or beyond
  the number of items, whatever the role; for a row in range it returns a null \<open>QVariant\<close>
  for every role other than the display and the edit role.
\<close>

theorem data_null:
  "(\<not> isValid ix \<or> rowCount m \<le> row ix \<longrightarrow> data m ix role = Invalid) \<and>
   (isValid ix \<and> row ix < rowCount m \<and> role \<noteq> DisplayRole \<and> role \<noteq> EditRole
      \<longrightarrow> data m ix role = Invalid)"
  using data_invalid_ix [of ix m role] data_other_role [of role m ix] by blast

theorem data_null_witness:
  "rowCount (ClipboardModel_new [''a'']) \<le> row (index 1) \<and>
   data (ClipboardModel_new [''a'']) (index 1) EditRole = Invalid \<and>
   isValid (index 0) \<and> row (index 0) < rowCount (ClipboardModel_new [''a'']) \<and>
   (7::int) \<noteq> DisplayRole \<and> (7::int) \<noteq> EditRole \<and>
   data (ClipboardModel_new [''a'']) (index 0) 7 = Invalid"
proof -
  have h: "rowCount (ClipboardModel_new [''a'']) = 1" "row (index 1) = 1" "row (index 0) = 0"
    "isValid (index 0)" "(7::int) \<noteq> DisplayRole" "(7::int) \<noteq> EditRole"
    by (simp_all add: rowCount_def ClipboardModel_new_def index_def isValid_def
        DisplayRole_def EditRole_def)
  show ?thesis
    using h data_null [of "index 1" "ClipboardModel_new [''a'']" EditRole]
      data_null [of "index 0" "ClipboardModel_new [''a'']" 7]
    by simp
qed

subsection \<open>setData\<close>

text \<open>
  C9: when the index is invalid or the role is not the edit role, \<open>setData\<close> returns false
  and the model is unchanged: every item, with its filter flag and its highlight, is as
  before.
\<close>

theorem setData_rejected:
  "\<not> isValid ix \<or> role \<noteq> EditRole \<Longrightarrow> setData dflt m ix v role = Inr (False, m)"
  by (auto simp: setData_def)

theorem setData_rejected_witness:
  "DisplayRole \<noteq> EditRole \<and>
   setData None (ClipboardModel_new [''a'']) (index 0) (VString ''b'') DisplayRole
     = Inr (False, ClipboardModel_new [''a''])"
proof -
  have h: "\<not> isValid (index 0) \<or> DisplayRole \<noteq> EditRole"
    by (simp add: DisplayRole_def EditRole_def)
  show ?thesis
    using setData_rejected [OF h] by (simp add: DisplayRole_def EditRole_def)
qed

subsection \<open>insertRows and removeRows\<close>

lemma qlist_insert_funpow:
  assumes "0 \<le> p" "p \<le> int (length l)"
  shows "((\<lambda>l. qlist_insert l p v) ^^ n) l = take (nat p) l @ replicate n v @ drop (nat p) l"
proof (induction n)
  case 0
  show ?case by simp
next
  case (Suc n)
  let ?L = "take (nat p) l @ replicate n v @ drop (nat p) l"
  have len: "length (take (nat p) l) = nat p"
    using assms by simp
  have "qlist_insert ?L p v = take (nat p) l @ replicate (Suc n) v @ drop (nat p) l"
  proof (cases "p \<le> 0")
    case True
    with assms have "p = 0" by simp
    then show ?thesis
      by (simp add: qlist_insert_def replicate_app_Cons_same)
  next
    case False
    show ?thesis
    proof (cases "int (length ?L) \<le> p")
      case True
      with assms have "n = 0" "nat p = length l" by auto
      with False True show ?thesis
        by (simp add: qlist_insert_def)
    next
      case long: False
      have "take (nat p) ?L = take (nat p) l"
        using len by simp
      moreover have "drop (nat p) ?L = replicate n v @ drop (nat p) l"
        using len by simp
      ultimately show ?thesis
        using False long by (simp add: qlist_insert_def replicate_app_Cons_same)
    qed
  qed
  with Suc show ?case by simp
qed

lemma qlist_removeAt_funpow:
  "0 \<le> p \<Longrightarrow> nat p + n \<le> length l \<Longrightarrow>
   ((\<lambda>l. qlist_removeAt l p) ^^ n) l = take (nat p) l @ drop (nat p + n) l"
proof (induction n arbitrary: l)
  case 0
  show ?case by simp
next
  case (Suc n)
  let ?l1 = "take (nat p) l @ drop (Suc (nat p)) l"
  from Suc.prems have first: "qlist_removeAt l p = ?l1"
    by (auto simp: qlist_removeAt_def)
  from Suc.prems have "nat p + n \<le> length ?l1"
    by simp
  with Suc.IH [of ?l1] Suc.prems(1)
  have "((\<lambda>l. qlist_removeAt l p) ^^ n) ?l1 = take (nat p) ?l1 @ drop (nat p + n) ?l1"
    by simp
  also have "\<dots> = take (nat p) l @ drop (nat p + Suc n) l"
    using Suc.prems by (simp add: min_def add.commute)
  finally show ?case
    by (simp only: funpow_Suc_right o_apply first)
qed

text \<open>
  C6: for a position \<open>p\<close> with \<open>0 \<le> p \<le> rowCount\<close> and a count \<open>n \<ge> 1\<close>, \<open>insertRows(p, n)\<close>
  returns true and puts \<open>n\<close> empty items at rows \<open>p\<close> to \<open>p + n - 1\<close>; the items stored
  before keep their values and their order, and \<open>rowCount\<close> grows by \<open>n\<close>.
\<close>

theorem insertRows_inserts_empty:
  assumes "0 \<le> p" "p \<le> rowCount m" "1 \<le> n"
  shows "insertRows m p n =
           (True, m\<lparr>m_clipboardList :=
              take (nat p) (m_clipboardList m) @ replicate (nat n) (ClipboardItem_new [])
                @ drop (nat p) (m_clipboardList m)\<rparr>) \<and>
         rowCount (snd (insertRows m p n)) = rowCount m + n \<and>
         (p \<le> k \<and> k < p + n \<longrightarrow>
            m_clipboardList (snd (insertRows m p n)) ! nat k = ClipboardItem_new []) \<and>
         take (nat p) (m_clipboardList (snd (insertRows m p n)))
           @ drop (nat (p + n)) (m_clipboardList (snd (insertRows m p n))) = m_clipboardList m"
proof -
  let ?l = "m_clipboardList m"
  let ?l' = "take (nat p) ?l @ replicate (nat n) (ClipboardItem_new []) @ drop (nat p) ?l"
  have len: "length (take (nat p) ?l) = nat p"
    using assms by (simp add: rowCount_def)
  have eq: "insertRows m p n = (True, m\<lparr>m_clipboardList := ?l'\<rparr>)"
    using assms qlist_insert_funpow [where p = p and l = ?l and v = "ClipboardItem_new []" and n = "nat n"]
    by (simp add: insertRows_def rowCount_def)
  have cnt: "rowCount (m\<lparr>m_clipboardList := ?l'\<rparr>) = rowCount m + n"
    using assms by (simp add: rowCount_def)
  have new: "?l' ! nat k = ClipboardItem_new []" if "p \<le> k" "k < p + n"
  proof -
    from that assms have "nat k - nat p < nat n" "\<not> nat k < nat p" by auto
    then show ?thesis
      by (simp only: nth_append len if_False nth_replicate length_replicate if_True)
  qed
  have "nat (p + n) = nat p + nat n"
    using assms by (simp add: nat_add_distrib)
  then have old: "take (nat p) ?l' @ drop (nat (p + n)) ?l' = ?l"
    using len by simp
  show ?thesis
    using cnt new old by (simp add: eq)
qed

theorem insertRows_inserts_empty_witness:
  "(0::int) \<le> 1 \<and> 1 \<le> rowCount (ClipboardModel_new [''a'', ''b'']) \<and> (1::int) \<le> 2 \<and>
   fst (insertRows (ClipboardModel_new [''a'', ''b'']) 1 2) = True \<and>
   map qstring (m_clipboardList (snd (insertRows (ClipboardModel_new [''a'', ''b'']) 1 2)))
     = [''a'', [], [], ''b'']"
proof -
  have h: "(0::int) \<le> 1" "1 \<le> rowCount (ClipboardModel_new [''a'', ''b''])" "(1::int) \<le> 2"
    by (simp_all add: rowCount_def list_of_new)
  have n: "nat 2 = Suc (Suc 0)"
    by simp
  show ?thesis
    using h insertRows_inserts_empty [OF h, of 1]
    by (simp add: list_of_new ClipboardItem_new_def n numeral_2_eq_2)
qed

text \<open>
  C5: for a position \<open>p\<close> and a count \<open>n\<close> with \<open>0 \<le> p\<close> and \<open>p + n \<le> rowCount\<close>,
  \<open>removeRows(p, n)\<close> returns true and deletes exactly the \<open>n\<close> items at rows \<open>p\<close> to
  \<open>p + n - 1\<close>: the items before row \<open>p\<close> and from row \<open>p + n\<close> on remain, with their values
  and in their order, and \<open>rowCount\<close> decreases by \<open>n\<close>. The count is a number of items,
  a natural number passed as the argument \<open>rows\<close>.
\<close>

theorem removeRows_removes_range:
  fixes n :: nat
  assumes "0 \<le> p" "p + int n \<le> rowCount m"
  shows "removeRows m p (int n) =
           (True, m\<lparr>m_clipboardList :=
              take (nat p) (m_clipboardList m) @ drop (nat p + n) (m_clipboardList m)\<rparr>) \<and>
         take (nat p) (m_clipboardList (snd (removeRows m p (int n))))
           = take (nat p) (m_clipboardList m) \<and>
         drop (nat p) (m_clipboardList (snd (removeRows m p (int n))))
           = drop (nat p + n) (m_clipboardList m) \<and>
         rowCount (snd (removeRows m p (int n))) = rowCount m - int n"
proof -
  let ?l = "m_clipboardList m"
  let ?l' = "take (nat p) ?l @ drop (nat p + n) ?l"
  have bound: "nat p + n \<le> length ?l"
    using assms by (simp add: rowCount_def)
  have len: "length (take (nat p) ?l) = nat p"
    using bound by simp
  have eq: "removeRows m p (int n) = (True, m\<lparr>m_clipboardList := ?l'\<rparr>)"
    using qlist_removeAt_funpow [OF assms(1) bound]
    by (simp add: removeRows_def)
  have before: "take (nat p) ?l' = take (nat p) ?l"
    using len by simp
  have after: "drop (nat p) ?l' = drop (nat p + n) ?l"
    using len by simp
  have cnt: "rowCount (m\<lparr>m_clipboardList := ?l'\<rparr>) = rowCount m - int n"
    using bound by (simp add: rowCount_def)
  show ?thesis
    using before after cnt by (simp add: eq)
qed

theorem removeRows_removes_range_witness:
  "(0::int) \<le> 1 \<and> 1 + int 2 \<le> rowCount (ClipboardModel_new [''a'', ''b'', ''c'', ''d'']) \<and>
   fst (removeRows (ClipboardModel_new [''a'', ''b'', ''c'', ''d'']) 1 (int 2)) = True \<and>
   map qstring (m_clipboardList (snd (removeRows (ClipboardModel_new [''a'', ''b'', ''c'', ''d'']) 1 (int 2))))
     = [''a'', ''d''] \<and>
   rowCount (snd (removeRows (ClipboardModel_new [''a'', ''b'', ''c'', ''d'']) 1 (int 2))) = 2"
proof -
  have h: "(0::int) \<le> 1" "1 + int 2 \<le> rowCount (ClipboardModel_new [''a'', ''b'', ''c'', ''d''])"
    by (simp_all add: rowCount_def list_of_new)
  have n: "(3::nat) = Suc (Suc (Suc 0))"
    by simp
  show ?thesis
    using h removeRows_removes_range [OF h]
    by (simp add: list_of_new ClipboardItem_new_def rowCount_def n)
qed

subsection \<open>move and moveItems\<close>

lemma getRowNumber_cycle:
  "rowCount m \<noteq> 0 \<Longrightarrow> getRowNumber m r True = wrap_row (rowCount m) r"
  by (simp add: getRowNumber_def wrap_row_def Let_def)

lemma wrap_row_range: "0 < n \<Longrightarrow> 0 \<le> wrap_row n r \<and> wrap_row n r < n"
  by (simp add: wrap_row_def)

lemma put_back:
  assumes "k \<le> length ys"
  shows "(take k ys @ x # drop k ys) ! k = x"
    and "others (take k ys @ x # drop k ys) k = ys"
proof -
  have len: "length (take k ys) = k"
    using assms by simp
  show "(take k ys @ x # drop k ys) ! k = x"
    using nth_append_length [of "take k ys" x "drop k ys"] by (simp only: len)
  show "others (take k ys @ x # drop k ys) k = ys"
    using assms by (simp add: others_def)
qed

lemma qlist_move_relocates:
  assumes "from < length xs" "to < length xs"
  shows "length (qlist_move xs from to) = length xs"
    and "qlist_move xs from to ! to = xs ! from"
    and "others (qlist_move xs from to) to = others xs from"
proof -
  define ys where "ys = take from xs @ drop (Suc from) xs"
  have eq: "qlist_move xs from to = take to ys @ xs ! from # drop to ys"
    by (simp add: qlist_move_def Let_def ys_def)
  have bound: "to \<le> length ys"
    using assms by (simp add: ys_def)
  show "length (qlist_move xs from to) = length xs"
    using assms by (simp add: qlist_move_def Let_def)
  show "qlist_move xs from to ! to = xs ! from"
    unfolding eq by (rule put_back(1) [OF bound])
  show "others (qlist_move xs from to) to = others xs from"
    unfolding eq using put_back(2) [OF bound] by (simp add: ys_def others_def)
qed

lemma move_empty: "rowCount m = 0 \<Longrightarrow> move m pos newpos = (False, m)"
  by (simp add: move_def getRowNumber_def Let_def)

lemma move_same:
  "rowCount m \<noteq> 0 \<Longrightarrow> wrap_row (rowCount m) pos = wrap_row (rowCount m) newpos \<Longrightarrow>
   move m pos newpos = (False, m)"
  by (simp add: move_def getRowNumber_cycle beginMoveRows_def Let_def)

lemma move_distinct:
  assumes "rowCount m \<noteq> 0" "wrap_row (rowCount m) pos \<noteq> wrap_row (rowCount m) newpos"
  shows "move m pos newpos =
           (True, m\<lparr>m_clipboardList :=
              qlist_move (m_clipboardList m) (nat (wrap_row (rowCount m) pos))
                (nat (wrap_row (rowCount m) newpos))\<rparr>)"
proof -
  have "0 < rowCount m"
    using assms(1) by (simp add: rowCount_def)
  then have "wrap_row (rowCount m) pos \<noteq> - 1" "wrap_row (rowCount m) newpos \<noteq> - 1"
    using wrap_row_range [of "rowCount m" pos] wrap_row_range [of "rowCount m" newpos] by auto
  then show ?thesis
    using assms by (auto simp: move_def getRowNumber_cycle beginMoveRows_def Let_def)
qed

text \<open>
  C3, as stated, for every non-empty model and all \<open>pos\<close> and \<open>newpos\<close>, \<open>move\<close> returns
  true: it fails when both arguments wrap to the same row. With three items,
  \<open>move(1, 1)\<close> asks \<open>beginMoveRows\<close> for the destination 1, which lies in the moved range;
  the toolkit refuses, and \<open>move\<close> returns false.
\<close>

theorem move_same_row_refused:
  "rowCount (ClipboardModel_new [''a'', ''b'', ''c'']) = 3 \<and>
   move (ClipboardModel_new [''a'', ''b'', ''c'']) 1 1
     = (False, ClipboardModel_new [''a'', ''b'', ''c''])"
  by (simp add: move_def getRowNumber_def beginMoveRows_def rowCount_def list_of_new Let_def)

text \<open>
  C3, amended: on a non-empty model \<open>move(pos, newpos)\<close> wraps each argument cyclically.
  When the two wrapped rows differ it returns true, the element of the wrapped source
  row is at the wrapped destination row afterwards, and the other elements keep their
  relative order. When the two wrapped rows are equal it returns false and leaves the
  model unchanged. On an empty model it returns false and leaves the model unchanged.
\<close>

theorem move_wraps_and_relocates:
  "(rowCount m = 0 \<longrightarrow> move m pos newpos = (False, m)) \<and>
   (rowCount m \<noteq> 0 \<and> wrap_row (rowCount m) pos = wrap_row (rowCount m) newpos \<longrightarrow>
      move m pos newpos = (False, m)) \<and>
   (rowCount m \<noteq> 0 \<and> wrap_row (rowCount m) pos \<noteq> wrap_row (rowCount m) newpos \<longrightarrow>
      fst (move m pos newpos) = True \<and>
      m_re (snd (move m pos newpos)) = m_re m \<and>
      rowCount (snd (move m pos newpos)) = rowCount m \<and>
      m_clipboardList (snd (move m pos newpos)) ! nat (wrap_row (rowCount m) newpos)
        = m_clipboardList m ! nat (wrap_row (rowCount m) pos) \<and>
      others (m_clipboardList (snd (move m pos newpos))) (nat (wrap_row (rowCount m) newpos))
        = others (m_clipboardList m) (nat (wrap_row (rowCount m) pos)))"
proof -
  have moved: ?thesis
    if ne: "rowCount m \<noteq> 0"
      and neq: "wrap_row (rowCount m) pos \<noteq> wrap_row (rowCount m) newpos"
  proof -
    have pos: "0 < rowCount m"
      using ne by (simp add: rowCount_def)
    have "nat (wrap_row (rowCount m) pos) < length (m_clipboardList m)"
      and "nat (wrap_row (rowCount m) newpos) < length (m_clipboardList m)"
      using wrap_row_range [OF pos, of pos] wrap_row_range [OF pos, of newpos]
      by (simp_all add: rowCount_def nat_less_iff)
    from qlist_move_relocates [OF this] show ?thesis
      using ne neq by (simp add: move_distinct rowCount_def)
  qed
  show ?thesis
  proof (cases "rowCount m = 0")
    case True
    then show ?thesis by (simp add: move_empty)
  next
    case False
    show ?thesis
    proof (cases "wrap_row (rowCount m) pos = wrap_row (rowCount m) newpos")
      case True
      with False show ?thesis by (simp add: move_same)
    next
      case neq: False
      with False show ?thesis by (rule moved)
    qed
  qed
qed

theorem move_wraps_and_relocates_witness:
  "rowCount (ClipboardModel_new [''a'', ''b'', ''c'']) = 3 \<and>
   wrap_row 3 (- 1) = 2 \<and> wrap_row 3 7 = 0 \<and>
   fst (move (ClipboardModel_new [''a'', ''b'', ''c'']) (- 1) 7) = True \<and>
   m_clipboardList (snd (move (ClipboardModel_new [''a'', ''b'', ''c'']) (- 1) 7)) ! 0
     = ClipboardItem_new ''c'' \<and>
   others (m_clipboardList (snd (move (ClipboardModel_new [''a'', ''b'', ''c'']) (- 1) 7))) 0
     = [ClipboardItem_new ''a'', ClipboardItem_new ''b''] \<and>
   move (ClipboardModel_new [''a'', ''b'', ''c'']) 5 0
     = (False, ClipboardModel_new [''a'', ''b'', ''c'']) \<and>
   rowCount (ClipboardModel_new []) = 0 \<and>
   move (ClipboardModel_new []) 0 1 = (False, ClipboardModel_new [])"
proof -
  have n: "rowCount (ClipboardModel_new [''a'', ''b'', ''c'']) = 3" "rowCount (ClipboardModel_new []) = 0"
    by (simp_all add: rowCount_def list_of_new)
  have w: "wrap_row 3 (- 1) = 2" "wrap_row 3 7 = 0" "wrap_row 3 5 = 0" "wrap_row 3 0 = 0"
    by (simp_all add: wrap_row_def)
  have two: "nat 2 = Suc (Suc 0)"
    by simp
  show ?thesis
    using move_wraps_and_relocates [of "ClipboardModel_new [''a'', ''b'', ''c'']" "- 1" 7]
      move_wraps_and_relocates [of "ClipboardModel_new [''a'', ''b'', ''c'']" 5 0]
      move_wraps_and_relocates [of "ClipboardModel_new []" 0 1]
    by (simp add: n w two list_of_new others_def)
qed

text \<open>
  C4: \<open>moveItems\<close> should return true exactly when some item was moved to the top row.
  On the model of \<open>a\<close>, \<open>b\<close> with row 1 selected and the key Down, the destination
  \<open>from + 1 = 2\<close> wraps to row 0 and \<open>b\<close> is moved to the top, yet the result is false:
  the flag compares the destination before wrapping with 0.
\<close>

theorem moveItems_down_from_last_row:
  "map qstring (m_clipboardList (ClipboardModel_new [''a'', ''b''])) = [''a'', ''b''] \<and>
   fst (moveItems (ClipboardModel_new [''a'', ''b'']) [index 1] Key_Down) = False \<and>
   map qstring (m_clipboardList (snd (moveItems (ClipboardModel_new [''a'', ''b'']) [index 1] Key_Down)))
     = [''b'', ''a'']"
  by (simp add: moveItems_def move_def getRowNumber_def beginMoveRows_def rowCount_def
      list_of_new Let_def index_def Key_Down_def Key_End_def Key_Up_def qlist_move_def
      ClipboardItem_new_def)

subsection \<open>setSearch\<close>

declare highlight_loop.simps [simp del] successive_matches.simps [simp del]

lemma indexIn_None_iff:
  "indexIn re str a = None \<longleftrightarrow> (\<forall>b. a \<le> b \<and> b \<le> length str \<longrightarrow> matchAt re str b = None)"
  by (auto simp: indexIn_def find_None_iff simp del: upt_Suc split: option.splits
      dest: find_Some_iff [THEN iffD1])

lemma highlight_loop_extends: "\<exists>t. snd (highlight_loop re str a hl) = hl @ t"
proof (induction re str a hl rule: highlight_loop.induct)
  case (1 re str a hl)
  show ?case
  proof (cases "indexIn re str a")
    case None
    then show ?thesis by (simp add: highlight_loop.simps [of re str a hl])
  next
    case (Some bl)
    obtain b len where bl: "bl = (b, len)" by (cases bl)
    show ?thesis
    proof (cases "len = 0")
      case True
      with Some bl show ?thesis by (simp add: highlight_loop.simps [of re str a hl])
    next
      case False
      from "1.IH" [OF Some [unfolded bl] refl False]
      obtain t where "snd (highlight_loop re str (b + len)
          (hl @ escape (mid str a (b - a)) @ span_open @ escape (mid str b len) @ span_close))
          = (hl @ escape (mid str a (b - a)) @ span_open @ escape (mid str b len) @ span_close) @ t"
        by blast
      with Some bl False show ?thesis
        by (simp add: highlight_loop.simps [of re str a hl])
    qed
  qed
qed

lemma highlight_loop_empty_iff:
  "snd (highlight_loop re str 0 []) = [] \<longleftrightarrow> \<not> first_match_nonempty re str"
proof (cases "indexIn re str 0")
  case None
  then show ?thesis
    by (simp add: highlight_loop.simps [of re str 0 "[]"] first_match_nonempty_def)
next
  case (Some bl)
  obtain b len where bl: "bl = (b, len)" by (cases bl)
  show ?thesis
  proof (cases "len = 0")
    case True
    with Some bl show ?thesis
      by (simp add: highlight_loop.simps [of re str 0 "[]"] first_match_nonempty_def)
  next
    case False
    obtain t where "snd (highlight_loop re str (b + len)
          ([] @ escape (mid str 0 (b - 0)) @ span_open @ escape (mid str b len) @ span_close))
          = ([] @ escape (mid str 0 (b - 0)) @ span_open @ escape (mid str b len) @ span_close) @ t"
      using highlight_loop_extends by blast
    then have "snd (highlight_loop re str (b + len)
          ([] @ escape (mid str 0 (b - 0)) @ span_open @ escape (mid str b len) @ span_close)) \<noteq> []"
      by (simp add: span_open_def)
    with Some bl False show ?thesis
      by (simp add: highlight_loop.simps [of re str 0 "[]"] first_match_nonempty_def)
  qed
qed

lemma highlight_loop_spec:
  "snd (highlight_loop re str a hl) @ escape (drop (fst (highlight_loop re str a hl)) str)
     = hl @ spec_pieces str a (takeWhile nonempty_match (successive_matches re str a))"
proof (induction re str a hl rule: highlight_loop.induct)
  case (1 re str a hl)
  show ?case
  proof (cases "indexIn re str a")
    case None
    then show ?thesis
      by (simp add: highlight_loop.simps [of re str a hl] successive_matches.simps [of re str a])
  next
    case (Some bl)
    obtain b len where bl: "bl = (b, len)" by (cases bl)
    show ?thesis
    proof (cases "len = 0")
      case True
      with Some bl show ?thesis
        by (simp add: highlight_loop.simps [of re str a hl]
            successive_matches.simps [of re str a] nonempty_match_def)
    next
      case False
      then have step: "b + max len 1 = b + len"
        by simp
      from "1.IH" [OF Some [unfolded bl] refl False] Some bl False show ?thesis
        by (simp add: highlight_loop.simps [of re str a hl]
            successive_matches.simps [of re str a] nonempty_match_def step mid_def)
    qed
  qed
qed

lemma setSearch_item_result:
  assumes "\<not> isEmpty re"
  shows "setSearch_item item (Some re) =
           (if first_match_nonempty re (qstring item)
            then item\<lparr>m_filtered := False,
                      m_highlight := spec_highlight (qstring item)
                        (takeWhile nonempty_match (successive_matches re (qstring item) 0))\<rparr>
            else item\<lparr>m_filtered := True\<rparr>)"
proof -
  let ?str = "qstring item"
  obtain a hl where loop: "highlight_loop re ?str 0 [] = (a, hl)"
    by (cases "highlight_loop re ?str 0 []")
  have empty: "hl = [] \<longleftrightarrow> \<not> first_match_nonempty re ?str"
    using highlight_loop_empty_iff [of re ?str] loop by simp
  have "hl @ escape (drop a ?str)
          = spec_highlight ?str (takeWhile nonempty_match (successive_matches re ?str 0))"
    using highlight_loop_spec [of re ?str 0 "[]"] loop by (simp add: spec_highlight_def)
  moreover have "a = length ?str \<Longrightarrow> escape (drop a ?str) = []"
    by (simp add: escape_Nil)
  ultimately have final:
    "(if a \<noteq> length ?str then hl @ escape (mid_from ?str a) else hl)
       = spec_highlight ?str (takeWhile nonempty_match (successive_matches re ?str 0))"
    by (auto simp: mid_from_def)
  show ?thesis
    using assms empty final
    by (simp add: setSearch_item_def loop Let_def setFiltered_def setHighlight_def)
qed

lemma spec_pieces_nonempty: "ms \<noteq> [] \<Longrightarrow> spec_pieces str prev ms \<noteq> []"
  by (cases ms) (auto simp: span_open_def)

lemma first_match_in_list:
  "first_match_nonempty re str \<Longrightarrow>
   takeWhile nonempty_match (successive_matches re str 0) \<noteq> []"
  by (auto simp: first_match_nonempty_def successive_matches.simps [of re str 0]
      nonempty_match_def split: option.splits)

lemma new_one_item: "ClipboardModel_new [str] = one_item str False []"
  by (simp add: ClipboardModel_new_def one_item_def ClipboardItem_new_def)

lemma setSearch_one_item:
  "setSearch (one_item str f h) 0 re_ptr =
     Inr (one_item str
            (m_filtered (setSearch_item \<lparr>qstring = str, m_image = None, m_filtered = f, m_highlight = h\<rparr> re_ptr))
            (m_highlight (setSearch_item \<lparr>qstring = str, m_image = None, m_filtered = f, m_highlight = h\<rparr> re_ptr)))"
  by (cases re_ptr)
     (simp_all add: setSearch_def one_item_def rowCount_def setSearch_item_def Let_def
       setFiltered_def setHighlight_def split: prod.splits)

text \<open>
  C1, as stated, the item is marked filtered if and only if the expression finds no match
  anywhere in its text: it fails for an expression whose first match is empty. The
  expression \<open>x*\<close> matches the text \<open>bxx\<close> (an empty match at position 0, and \<open>xx\<close> at
  position 1), yet the loop leaves at the empty match with no highlight, and the item is
  marked filtered.
\<close>

theorem setSearch_filters_on_empty_first_match:
  "isEmpty (re_star CHR ''x'') = False \<and>
   indexIn (re_star CHR ''x'') ''bxx'' 0 = Some (0, 0) \<and>
   matchAt (re_star CHR ''x'') ''bxx'' 1 = Some 2 \<and>
   setSearch (ClipboardModel_new [''bxx'']) 0 (Some (re_star CHR ''x''))
     = Inr (one_item ''bxx'' True []) \<and>
   isFiltered (one_item ''bxx'' True []) 0 = Inr True"
proof -
  have "isEmpty (re_star CHR ''x'') = False"
    and "indexIn (re_star CHR ''x'') ''bxx'' 0 = Some (0, 0)"
    and "matchAt (re_star CHR ''x'') ''bxx'' 1 = Some 2"
    by code_simp+
  moreover have "setSearch_item \<lparr>qstring = ''bxx'', m_image = None, m_filtered = False, m_highlight = []\<rparr>
      (Some (re_star CHR ''x''))
    = \<lparr>qstring = ''bxx'', m_image = None, m_filtered = True, m_highlight = []\<rparr>"
    by code_simp
  then have "setSearch (ClipboardModel_new [''bxx'']) 0 (Some (re_star CHR ''x''))
     = Inr (one_item ''bxx'' True [])"
    by (simp add: new_one_item setSearch_one_item)
  moreover have "isFiltered (one_item ''bxx'' True []) 0 = Inr True"
    by (simp add: isFiltered_def one_item_def rowCount_def)
  ultimately show ?thesis
    by simp
qed

text \<open>
  C1, amended: for every row \<open>i\<close> and every non-empty expression, after \<open>setSearch(i, re)\<close>
  the item at row \<open>i\<close> is marked filtered if and only if the expression has no match in
  the item's text or its first match, searching from the start, is empty; when the first
  match is not empty, the item is left unfiltered and is given a non-empty highlight
  string.
\<close>

theorem setSearch_filter_and_highlight:
  assumes "0 \<le> i" "i < rowCount m" "\<not> isEmpty re"
  shows "\<exists>m'. setSearch m i (Some re) = Inr m' \<and>
           isFiltered m' i
             = Inr (\<not> first_match_nonempty re (qstring (m_clipboardList m ! nat i))) \<and>
           (first_match_nonempty re (qstring (m_clipboardList m ! nat i)) \<longrightarrow>
              m_highlight (m_clipboardList m' ! nat i) \<noteq> [])"
proof -
  let ?l = "m_clipboardList m"
  let ?m' = "m\<lparr>m_clipboardList := ?l[nat i := setSearch_item (?l ! nat i) (Some re)]\<rparr>"
  have in_range: "nat i < length ?l"
    using assms by (simp add: rowCount_def nat_less_iff)
  have "setSearch m i (Some re) = Inr ?m'"
    using assms by (simp add: setSearch_def)
  moreover have "isFiltered ?m' i = Inr (\<not> first_match_nonempty re (qstring (?l ! nat i)))"
    using assms in_range by (simp add: isFiltered_def rowCount_def setSearch_item_result)
  moreover have "m_highlight (m_clipboardList ?m' ! nat i) \<noteq> []"
    if "first_match_nonempty re (qstring (?l ! nat i))"
    using assms in_range that spec_pieces_nonempty [OF first_match_in_list [OF that]]
    by (simp add: setSearch_item_result spec_highlight_def)
  ultimately show ?thesis
    by blast
qed

theorem setSearch_filter_and_highlight_witness:
  "(0::int) \<le> 0 \<and> 0 < rowCount (ClipboardModel_new [''a b'']) \<and>
   isEmpty (re_literal ''b'') = False \<and>
   first_match_nonempty (re_literal ''b'') ''a b'' = True \<and>
   setSearch (ClipboardModel_new [''a b'']) 0 (Some (re_literal ''b''))
     = Inr (one_item ''a b'' False (''a&nbsp;'' @ span_open @ ''b'' @ span_close)) \<and>
   isFiltered (one_item ''a b'' False (''a&nbsp;'' @ span_open @ ''b'' @ span_close)) 0
     = Inr False"
proof -
  have h: "(0::int) \<le> 0" "0 < rowCount (ClipboardModel_new [''a b''])"
    by (simp_all add: rowCount_def list_of_new)
  have b: "\<not> isEmpty (re_literal ''b'')"
    by (simp add: isEmpty_def re_literal_def)
  have item: "qstring (m_clipboardList (ClipboardModel_new [''a b'']) ! 0) = ''a b''"
    by (simp add: list_of_new ClipboardItem_new_def)
  have fb: "first_match_nonempty (re_literal ''b'') ''a b'' = True"
    by code_simp
  have "setSearch_item \<lparr>qstring = ''a b'', m_image = None, m_filtered = False, m_highlight = []\<rparr>
      (Some (re_literal ''b''))
    = \<lparr>qstring = ''a b'', m_image = None, m_filtered = False,
        m_highlight = ''a&nbsp;'' @ span_open @ ''b'' @ span_close\<rparr>"
    by code_simp
  then have res: "setSearch (ClipboardModel_new [''a b'']) 0 (Some (re_literal ''b''))
     = Inr (one_item ''a b'' False (''a&nbsp;'' @ span_open @ ''b'' @ span_close))"
    by (simp add: new_one_item setSearch_one_item)
  from setSearch_filter_and_highlight [OF h b]
  have "isFiltered (one_item ''a b'' False (''a&nbsp;'' @ span_open @ ''b'' @ span_close)) 0
     = Inr False"
    by (auto simp: item fb res)
  then show ?thesis
    using h b fb res by simp
qed

text \<open>
  C2, as stated, for every expression with at least one non-empty match in the text: it
  fails when an empty match comes first. For \<open>x*\<close> and the text \<open>bxx\<close> no highlight is
  produced at all, although \<open>xx\<close> matches at position 1; for the text \<open>xxbxx\<close> the
  highlight marks the first \<open>xx\<close> only, because the loop leaves at the empty match at
  position 2, while the successive matches include the second \<open>xx\<close>.
\<close>

theorem setSearch_highlight_stops_at_empty_match:
  "isEmpty (re_star CHR ''x'') = False \<and>
   matchAt (re_star CHR ''x'') ''bxx'' 1 = Some 2 \<and>
   setSearch (ClipboardModel_new [''bxx'']) 0 (Some (re_star CHR ''x''))
     = Inr (one_item ''bxx'' True []) \<and>
   spec_highlight ''bxx'' (successive_matches (re_star CHR ''x'') ''bxx'' 0)
     = span_open @ span_close @ ''b'' @ span_open @ ''xx'' @ span_close @ span_open @ span_close \<and>
   matchAt (re_star CHR ''x'') ''xxbxx'' 3 = Some 2 \<and>
   setSearch (ClipboardModel_new [''xxbxx'']) 0 (Some (re_star CHR ''x''))
     = Inr (one_item ''xxbxx'' False (span_open @ ''xx'' @ span_close @ ''bxx'')) \<and>
   spec_highlight ''xxbxx'' (successive_matches (re_star CHR ''x'') ''xxbxx'' 0)
     = span_open @ ''xx'' @ span_close @ span_open @ span_close @ ''b''
         @ span_open @ ''xx'' @ span_close @ span_open @ span_close"
proof -
  have "isEmpty (re_star CHR ''x'') = False"
    and "matchAt (re_star CHR ''x'') ''bxx'' 1 = Some 2"
    and "matchAt (re_star CHR ''x'') ''xxbxx'' 3 = Some 2"
    and "spec_highlight ''bxx'' (successive_matches (re_star CHR ''x'') ''bxx'' 0)
     = span_open @ span_close @ ''b'' @ span_open @ ''xx'' @ span_close @ span_open @ span_close"
    and "spec_highlight ''xxbxx'' (successive_matches (re_star CHR ''x'') ''xxbxx'' 0)
     = span_open @ ''xx'' @ span_close @ span_open @ span_close @ ''b''
         @ span_open @ ''xx'' @ span_close @ span_open @ span_close"
    by code_simp+
  moreover have "setSearch_item \<lparr>qstring = ''bxx'', m_image = None, m_filtered = False, m_highlight = []\<rparr>
      (Some (re_star CHR ''x''))
    = \<lparr>qstring = ''bxx'', m_image = None, m_filtered = True, m_highlight = []\<rparr>"
    by code_simp
  then have "setSearch (ClipboardModel_new [''bxx'']) 0 (Some (re_star CHR ''x''))
     = Inr (one_item ''bxx'' True [])"
    by (simp add: new_one_item setSearch_one_item)
  moreover have "setSearch_item \<lparr>qstring = ''xxbxx'', m_image = None, m_filtered = False, m_highlight = []\<rparr>
      (Some (re_star CHR ''x''))
    = \<lparr>qstring = ''xxbxx'', m_image = None, m_filtered = False,
        m_highlight = span_open @ ''xx'' @ span_close @ ''bxx''\<rparr>"
    by code_simp
  then have "setSearch (ClipboardModel_new [''xxbxx'']) 0 (Some (re_star CHR ''x''))
     = Inr (one_item ''xxbxx'' False (span_open @ ''xx'' @ span_close @ ''bxx''))"
    by (simp add: new_one_item setSearch_one_item)
  ultimately show ?thesis
    by simp
qed

text \<open>
  C2, amended: for every text and every non-empty expression whose first match in the
  text is not empty, the highlight string that \<open>setSearch(i, re)\<close> produces is the
  concatenation, over the successive non-overlapping matches that come before the first
  empty match, left to right, of the escaped text between the end of the previous match
  and the start of this one, the opening tag, the escaped matched text and the closing
  tag, followed by the escaped remainder of the text after the last of these matches.
\<close>

theorem setSearch_highlight_spec:
  assumes "0 \<le> i" "i < rowCount m" "\<not> isEmpty re"
    and "first_match_nonempty re (qstring (m_clipboardList m ! nat i))"
  shows "\<exists>m'. setSearch m i (Some re) = Inr m' \<and>
           m_highlight (m_clipboardList m' ! nat i)
             = spec_highlight (qstring (m_clipboardList m ! nat i))
                 (takeWhile nonempty_match
                    (successive_matches re (qstring (m_clipboardList m ! nat i)) 0))"
proof -
  have "nat i < length (m_clipboardList m)"
    using assms by (simp add: rowCount_def nat_less_iff)
  then show ?thesis
    using assms by (simp add: setSearch_def setSearch_item_result)
qed

theorem setSearch_highlight_spec_witness:
  "(0::int) \<le> 0 \<and> 0 < rowCount (ClipboardModel_new [''x abyab<'']) \<and>
   isEmpty (re_literal ''ab'') = False \<and>
   first_match_nonempty (re_literal ''ab'') ''x abyab<'' = True \<and>
   successive_matches (re_literal ''ab'') ''x abyab<'' 0 = [(2, 2), (5, 2)] \<and>
   m_highlight (m_clipboardList (one_item ''x abyab<'' False
       (''x&nbsp;'' @ span_open @ ''ab'' @ span_close @ ''y''
          @ span_open @ ''ab'' @ span_close @ ''&lt;'')) ! 0)
     = spec_highlight ''x abyab<'' [(2, 2), (5, 2)] \<and>
   setSearch (ClipboardModel_new [''x abyab<'']) 0 (Some (re_literal ''ab''))
     = Inr (one_item ''x abyab<'' False
         (''x&nbsp;'' @ span_open @ ''ab'' @ span_close @ ''y''
            @ span_open @ ''ab'' @ span_close @ ''&lt;''))"
proof -
  have h: "(0::int) \<le> 0" "0 < rowCount (ClipboardModel_new [''x abyab<''])"
    by (simp_all add: rowCount_def list_of_new)
  have ne: "\<not> isEmpty (re_literal ''ab'')"
    by (simp add: isEmpty_def re_literal_def)
  have item: "qstring (m_clipboardList (ClipboardModel_new [''x abyab<'']) ! 0) = ''x abyab<''"
    by (simp add: list_of_new ClipboardItem_new_def)
  have f: "first_match_nonempty (re_literal ''ab'') ''x abyab<'' = True"
    by code_simp
  have ms: "successive_matches (re_literal ''ab'') ''x abyab<'' 0 = [(2, 2), (5, 2)]"
    by code_simp
  have "setSearch_item \<lparr>qstring = ''x abyab<'', m_image = None, m_filtered = False, m_highlight = []\<rparr>
      (Some (re_literal ''ab''))
    = \<lparr>qstring = ''x abyab<'', m_image = None, m_filtered = False,
        m_highlight = ''x&nbsp;'' @ span_open @ ''ab'' @ span_close @ ''y''
            @ span_open @ ''ab'' @ span_close @ ''&lt;''\<rparr>"
    by code_simp
  then have res: "setSearch (ClipboardModel_new [''x abyab<'']) 0 (Some (re_literal ''ab''))
     = Inr (one_item ''x abyab<'' False
         (''x&nbsp;'' @ span_open @ ''ab'' @ span_close @ ''y''
            @ span_open @ ''ab'' @ span_close @ ''&lt;''))"
    by (simp add: new_one_item setSearch_one_item)
  from f have f': "first_match_nonempty (re_literal ''ab'')
      (qstring (m_clipboardList (ClipboardModel_new [''x abyab<'']) ! nat 0))"
    by (simp only: item nat_0)
  from setSearch_highlight_spec [OF h ne f']
  have "m_highlight (m_clipboardList (one_item ''x abyab<'' False
       (''x&nbsp;'' @ span_open @ ''ab'' @ span_close @ ''y''
          @ span_open @ ''ab'' @ span_close @ ''&lt;'')) ! 0)
     = spec_highlight ''x abyab<'' [(2, 2), (5, 2)]"
    by (auto simp: item res ms nonempty_match_def)
  then show ?thesis
    using h ne f ms res by simp
qed

end
